theory Spec2Isabelle
  imports Complex_Main "HOL-Library.Word"
begin

section \<open>interruptible_tts_wrapper.py: data\<close>

datatype InterruptReason = MANUAL | VAD_DETECTED | WAKE_WORD | NEW_MESSAGE | SHUTDOWN

type_synonym bytes = "8 word list"

text \<open>The dataclass \<open>AudioTask\<close>. The field \<open>text\<close> is named \<open>task_text\<close> here;
  \<open>metadata\<close> is a dict, kept as an association list.\<close>

record AudioTask =
  task_text :: string
  task_id :: string
  priority :: int
  metadata :: "(string \<times> string) list"

text \<open>Everything the wrapper does to the outside world, in the order it happens: the
  lines it logs, the callbacks it invokes, the text it hands to the synthesis engine and
  the calls it makes on the audio device.\<close>

datatype effect =
    Log_interrupting_task string string
  | Log_interrupting InterruptReason
  | Log_processing string
  | Log_generation_interrupted
  | Log_error_generating
  | Log_error_worker
  | On_speech_start
  | On_speech_end
  | On_speech_interrupted InterruptReason
  | Original_on_vad_start
  | Synthesize string
  | Stream_open
  | Stream_write bytes
  | Stream_stop
  | Stream_close
  | PyAudio_terminate

text \<open>The attributes of \<open>InterruptibleTTSWrapper\<close> set in \<open>__init__\<close>. A callback is
  \<open>Optional\<close>: the flag says whether one was given. \<open>should_stop\<close> is the
  \<open>threading.Event\<close>; \<open>audio_queue\<close> is the \<open>queue.Queue\<close>, oldest item first, where
  \<open>None\<close> is the shutdown signal; \<open>stream\<close> says whether \<open>self.stream\<close> holds a stream
  object. Two components are not attributes of the object: \<open>pending\<close> holds the
  reasons of the calls of \<open>interrupt\<close> by other threads that have passed its test of
  \<open>is_speaking\<close> and have not yet set the stop flag (the method takes no lock);
  \<open>trace\<close> is the history of effects.\<close>

record wrapper =
  has_on_speech_start :: bool
  has_on_speech_end :: bool
  has_on_speech_interrupted :: bool
  is_speaking :: bool
  should_stop :: bool
  audio_queue :: "AudioTask option list"
  current_task :: "AudioTask option"
  stream :: bool
  pending :: "InterruptReason list"
  trace :: "effect list"

definition chunk_size :: nat where
  "chunk_size = 1024"

definition init :: "bool \<Rightarrow> bool \<Rightarrow> bool \<Rightarrow> wrapper" where
  "init cb_start cb_end cb_interrupted =
     \<lparr>has_on_speech_start = cb_start, has_on_speech_end = cb_end,
      has_on_speech_interrupted = cb_interrupted,
      is_speaking = False, should_stop = False, audio_queue = [],
      current_task = None, stream = False, pending = [], trace = []\<rparr>"

definition emit :: "effect \<Rightarrow> wrapper \<Rightarrow> wrapper" where
  "emit e s = s\<lparr>trace := trace s @ [e]\<rparr>"

section \<open>The operations called from other threads\<close>

definition interrupt :: "InterruptReason \<Rightarrow> wrapper \<Rightarrow> wrapper" where
  "interrupt reason s =
     (if is_speaking s then
        (let s1 = emit (Log_interrupting reason) s;
             s2 = s1\<lparr>should_stop := True\<rparr>
         in if has_on_speech_interrupted s2 then emit (On_speech_interrupted reason) s2
            else s2)
      else s)"

text \<open>\<open>interrupt\<close> above is the method run without another thread in between. Its
  two halves, for a call that the worker overtakes: the test and the log line, which says
  whether the test passed, and the setting of the flag with the callback.\<close>

definition interrupt_enter :: "InterruptReason \<Rightarrow> wrapper \<Rightarrow> bool \<times> wrapper" where
  "interrupt_enter reason s =
     (if is_speaking s then (True, emit (Log_interrupting reason) s) else (False, s))"

definition interrupt_finish :: "InterruptReason \<Rightarrow> wrapper \<Rightarrow> wrapper" where
  "interrupt_finish reason s =
     (let s2 = s\<lparr>should_stop := True\<rparr>
      in if has_on_speech_interrupted s2 then emit (On_speech_interrupted reason) s2
         else s2)"

text \<open>\<open>speak\<close>: \<open>tid\<close> is the \<open>task_id\<close> argument (\<open>None\<close> and the empty string are
  both falsy), \<open>uuid\<close> is what \<open>uuid.uuid4()\<close> would give, \<open>meta\<close> the \<open>metadata\<close>
  argument. The function has no check of \<open>text\<close> and no failing branch.\<close>

definition speak ::
  "string \<Rightarrow> string option \<Rightarrow> int \<Rightarrow> (string \<times> string) list option \<Rightarrow> string
     \<Rightarrow> wrapper \<Rightarrow> string \<times> wrapper" where
  "speak txt tid prio meta uuid s =
     (let tid1 = (case tid of None \<Rightarrow> uuid | Some i \<Rightarrow> if i = [] then uuid else i);
          task = \<lparr>task_text = txt, task_id = tid1, priority = prio,
                  metadata = (case meta of None \<Rightarrow> [] | Some m \<Rightarrow> m)\<rparr>;
          s1 = (case current_task s of
                  None \<Rightarrow> s
                | Some cur \<Rightarrow>
                    if is_speaking s \<and> priority cur < prio
                    then interrupt NEW_MESSAGE
                           (emit (Log_interrupting_task (task_id cur) tid1) s)
                    else s)
      in (tid1, s1\<lparr>audio_queue := audio_queue s1 @ [Some task]\<rparr>))"

definition clear_queue :: "wrapper \<Rightarrow> wrapper" where
  "clear_queue s = s\<lparr>audio_queue := []\<rparr>"

text \<open>\<open>shutdown\<close> ends with calls of PyAudio, which is not part of the repository: whether
  \<open>stop_stream\<close>, \<open>close\<close> and \<open>terminate\<close> raise is given from outside, for each
  call of \<open>shutdown\<close>. \<open>shutdown\<close> catches nothing: an exception ends it there and
  reaches the caller, with the changes made so far in place. A device call is in the
  trace when it returned.\<close>

datatype call_result = Returned | Raised_error

record release_env =
  stop_stream_raises :: bool
  close_raises :: bool
  terminate_raises :: bool

definition release :: "release_env \<Rightarrow> wrapper \<Rightarrow> call_result \<times> wrapper" where
  "release d s =
     (if stream s \<and> stop_stream_raises d then (Raised_error, s)
      else (let s1 = (if stream s then emit Stream_stop s else s)
            in if stream s1 \<and> close_raises d then (Raised_error, s1)
               else (let s2 = (if stream s1 then emit Stream_close s1 else s1)
                     in if terminate_raises d then (Raised_error, s2)
                        else (Returned, emit PyAudio_terminate s2))))"

definition shutdown :: "release_env \<Rightarrow> wrapper \<Rightarrow> call_result \<times> wrapper" where
  "shutdown d s =
     (let s1 = interrupt SHUTDOWN s;
          s2 = clear_queue s1;
          s3 = s2\<lparr>audio_queue := audio_queue s2 @ [None]\<rparr>
      in release d s3)"

text \<open>The closure \<open>on_vad_interrupt\<close> that \<open>_setup_vad_callbacks\<close> installs as the
  recorder's \<open>on_vad_detect_start\<close>; \<open>original\<close> says whether the recorder had a
  callback before.\<close>

definition on_vad_interrupt :: "bool \<Rightarrow> wrapper \<Rightarrow> wrapper" where
  "on_vad_interrupt original s =
     (let s1 = interrupt VAD_DETECTED s
      in if original then emit Original_on_vad_start s1 else s1)"

text \<open>A step of another thread while the worker runs: a call of a method, run as a
  whole, or one of the two halves of a call of \<open>interrupt\<close>. \<open>Interrupt_enter\<close> notes
  the call as pending when its test passed; \<open>Interrupt_finish\<close> lets the oldest pending
  call set the flag.\<close>

datatype call =
    Speak string "string option" int "(string \<times> string) list option" string
  | Interrupt InterruptReason
  | Interrupt_enter InterruptReason
  | Interrupt_finish
  | Clear_queue
  | Vad_start bool
  | Shutdown release_env

fun apply_call :: "call \<Rightarrow> wrapper \<Rightarrow> wrapper" where
  "apply_call (Speak txt tid prio meta uuid) s = snd (speak txt tid prio meta uuid s)"
| "apply_call (Interrupt r) s = interrupt r s"
| "apply_call (Interrupt_enter r) s =
     (case interrupt_enter r s of
        (True, s1) \<Rightarrow> s1\<lparr>pending := pending s1 @ [r]\<rparr>
      | (False, s1) \<Rightarrow> s1)"
| "apply_call Interrupt_finish s =
     (case pending s of
        [] \<Rightarrow> s
      | r # rs \<Rightarrow> interrupt_finish r (s\<lparr>pending := rs\<rparr>))"
| "apply_call Clear_queue s = clear_queue s"
| "apply_call (Vad_start original) s = on_vad_interrupt original s"
| "apply_call (Shutdown d) s = snd (shutdown d s)"

fun apply_calls :: "call list \<Rightarrow> wrapper \<Rightarrow> wrapper" where
  "apply_calls [] s = s"
| "apply_calls (c # cs) s = apply_calls cs (apply_call c s)"

section \<open>The worker thread\<close>

text \<open>What the outside world does while the worker handles one task: the steps of other
  threads while the worker waits for the queue, between its setting of \<open>is_speaking\<close>
  and its clearing of the stop flag, and at each later point where it waits; the chunks
  the synthesis engine streams,
  whether the stream raises after them, what decoding the MP3 data gives (\<open>None\<close>: it
  raises), whether opening the device raises, and for each slice written the calls made
  meanwhile and whether the write raises.\<close>

datatype chunk = Audio bytes | Other

record task_env =
  idle_calls :: "call list"
  begin_calls :: "call list"
  stream_items :: "(call list \<times> chunk) list"
  stream_raises :: bool
  decode_calls :: "call list"
  decode :: "bytes \<Rightarrow> bytes option"
  open_raises :: bool
  writes :: "(call list \<times> bool) list"

text \<open>The \<open>async for\<close> loop of \<open>_generate_audio\<close>: \<open>None\<close> when the stop flag ended it.\<close>

fun collect_chunks ::
  "(call list \<times> chunk) list \<Rightarrow> bytes list \<Rightarrow> wrapper \<Rightarrow> bytes list option \<times> wrapper" where
  "collect_chunks [] acc s = (Some acc, s)"
| "collect_chunks ((cs, c) # rest) acc s =
     (let s1 = apply_calls cs s;
          acc1 = (case c of Audio d \<Rightarrow> acc @ [d] | Other \<Rightarrow> acc)
      in if should_stop s1 then (None, emit Log_generation_interrupted s1)
         else collect_chunks rest acc1 s1)"

definition generate_audio :: "task_env \<Rightarrow> string \<Rightarrow> wrapper \<Rightarrow> bytes option \<times> wrapper" where
  "generate_audio e txt s =
     (case collect_chunks (stream_items e) [] (emit (Synthesize txt) s) of
        (None, s1) \<Rightarrow> (None, s1)
      | (Some mp3_chunks, s1) \<Rightarrow>
          if stream_raises e then (None, emit Log_error_generating s1)
          else (let s2 = apply_calls (decode_calls e) s1
                in case decode e (concat mp3_chunks) of
                     None \<Rightarrow> (None, emit Log_error_generating s2)
                   | Some pcm \<Rightarrow> (Some pcm, s2)))"

text \<open>\<open>_play_audio\<close> returns True (\<open>Completed\<close>), False (\<open>Stopped\<close>) or raises.\<close>

datatype play_result = Completed | Stopped | Raised

text \<open>\<open>range(0, n, step)\<close> as a list.\<close>

definition range_step :: "nat \<Rightarrow> nat \<Rightarrow> nat list" where
  "range_step n step = map (\<lambda>k. k * step) [0..<(n + step - 1) div step]"

fun play_chunks ::
  "nat list \<Rightarrow> (call list \<times> bool) list \<Rightarrow> bytes \<Rightarrow> wrapper \<Rightarrow> play_result \<times> wrapper" where
  "play_chunks [] ws d s = (Completed, s)"
| "play_chunks (i # is) ws d s =
     (if should_stop s then (Stopped, s)
      else (case (case ws of [] \<Rightarrow> ([], False) | w # _ \<Rightarrow> w) of
              (cs, raises) \<Rightarrow>
                if raises then (Raised, apply_calls cs s)
                else play_chunks is (tl ws) d
                       (apply_calls cs
                          (emit (Stream_write (take (chunk_size * 2) (drop i d))) s))))"

definition play_audio :: "task_env \<Rightarrow> bytes \<Rightarrow> wrapper \<Rightarrow> play_result \<times> wrapper" where
  "play_audio e d s =
     (if \<not> stream s \<and> open_raises e then (Raised, s)
      else (let s1 = (if \<not> stream s then (emit Stream_open s)\<lparr>stream := True\<rparr> else s)
            in play_chunks (range_step (length d) (chunk_size * 2)) (writes e) d s1))"

text \<open>The body of the worker's loop for a task taken from the queue, in two parts:
  \<open>begin_task\<close> is everything up to the start notification, \<open>process_task\<close> the whole
  body.\<close>

definition begin_task :: "task_env \<Rightarrow> AudioTask \<Rightarrow> wrapper \<Rightarrow> wrapper" where
  "begin_task e t s =
     (let s1 = s\<lparr>current_task := Some t, is_speaking := True\<rparr>;
          s2 = (apply_calls (begin_calls e) s1)\<lparr>should_stop := False\<rparr>;
          s3 = emit (Log_processing (task_id t)) s2
      in if has_on_speech_start s3 then emit On_speech_start s3 else s3)"

definition process_task :: "task_env \<Rightarrow> AudioTask \<Rightarrow> wrapper \<Rightarrow> wrapper" where
  "process_task e t s =
     (case generate_audio e (task_text t) (begin_task e t s) of
        (audio_data, s2) \<Rightarrow>
          (case (case audio_data of
                   None \<Rightarrow> None
                 | Some d \<Rightarrow> if d \<noteq> [] \<and> \<not> should_stop s2 then Some d else None) of
             None \<Rightarrow> s2\<lparr>is_speaking := False, current_task := None\<rparr>
           | Some d \<Rightarrow>
               (case play_audio e d s2 of
                  (Raised, s3) \<Rightarrow> (emit Log_error_worker s3)\<lparr>is_speaking := False\<rparr>
                | (Stopped, s3) \<Rightarrow> s3\<lparr>is_speaking := False, current_task := None\<rparr>
                | (Completed, s3) \<Rightarrow>
                    (if has_on_speech_end s3 then emit On_speech_end s3 else s3)
                      \<lparr>is_speaking := False, current_task := None\<rparr>)))"

text \<open>\<open>_worker_loop\<close>. Each element of the schedule is one wait on \<open>audio_queue.get()\<close>
  and what follows it; the loop has \<open>Exited\<close> when it took the shutdown signal, and is
  still \<open>Waiting\<close> when the schedule ends.\<close>

datatype worker_status = Exited | Waiting

fun worker_loop :: "task_env list \<Rightarrow> wrapper \<Rightarrow> worker_status \<times> wrapper" where
  "worker_loop [] s = (Waiting, s)"
| "worker_loop (e # es) s =
     (let s1 = apply_calls (idle_calls e) s
      in case audio_queue s1 of
           [] \<Rightarrow> worker_loop es s1
         | None # q \<Rightarrow> (Exited, s1\<lparr>audio_queue := q\<rparr>)
         | Some t # q \<Rightarrow> worker_loop es (process_task e t (s1\<lparr>audio_queue := q\<rparr>)))"

text \<open>The task ids of the lines "Processing audio task", in order: the order in which
  the worker took tasks from the queue.\<close>

fun processed :: "effect list \<Rightarrow> string list" where
  "processed [] = []"
| "processed (Log_processing i # es) = i # processed es"
| "processed (_ # es) = processed es"

text \<open>An environment in which no other thread calls the wrapper.\<close>

definition quiet :: "task_env \<Rightarrow> bool" where
  "quiet e \<longleftrightarrow>
     idle_calls e = [] \<and> begin_calls e = [] \<and>
     list_all (\<lambda>(cs, c). cs = []) (stream_items e) \<and>
     decode_calls e = [] \<and> list_all (\<lambda>(cs, r). cs = []) (writes e)"

text \<open>Proof devices: an effect other than the start and end notifications and the
  "Processing" line; and \<open>adds P s s'\<close>: the state \<open>s'\<close> has the callbacks of \<open>s\<close> and
  its trace is that of \<open>s\<close> followed by effects that satisfy \<open>P\<close>.\<close>

fun minor :: "effect \<Rightarrow> bool" where
  "minor On_speech_start = False"
| "minor On_speech_end = False"
| "minor (Log_processing i) = False"
| "minor _ = True"

definition adds :: "(effect \<Rightarrow> bool) \<Rightarrow> wrapper \<Rightarrow> wrapper \<Rightarrow> bool" where
  "adds P s s' \<longleftrightarrow>
     take (length (trace s)) (trace s') = trace s \<and>
     list_all P (drop (length (trace s)) (trace s')) \<and>
     has_on_speech_start s' = has_on_speech_start s \<and>
     has_on_speech_end s' = has_on_speech_end s \<and>
     has_on_speech_interrupted s' = has_on_speech_interrupted s"

section \<open>assistant_server_interruptible.py\<close>

text \<open>A JSON message sent to the clients, as its list of fields; the conversation history
  as a list of (role, content).\<close>

type_synonym json = "(string \<times> string) list"

record server =
  conversation_mode :: bool
  conversation_history :: "(string \<times> string) list"
  is_assistant_speaking :: bool
  main_loop :: bool
  tts_wrapper :: wrapper
  sent :: "json list"

text \<open>\<open>if main_loop: asyncio.run_coroutine_threadsafe(send_to_clients(message), main_loop)\<close>\<close>

definition broadcast :: "json \<Rightarrow> server \<Rightarrow> server" where
  "broadcast msg sv = (if main_loop sv then sv\<lparr>sent := sent sv @ [msg]\<rparr> else sv)"

definition no_key_reply :: string where
  "no_key_reply = ''Please set ANTHROPIC_API_KEY environment variable''"

definition llm_error_reply :: string where
  "llm_error_reply =
     ''I'' @ [CHR 0x27] @ ''m sorry, I encountered an error processing your request.''"

text \<open>\<open>generate_llm_response\<close>: \<open>api_key\<close> is the environment variable, \<open>llm\<close> the call
  of the language model on the messages (\<open>None\<close>: an exception, caught by the
  \<open>except\<close> clause). Returns the reply and the new history.\<close>

definition generate_llm_response ::
  "string option \<Rightarrow> ((string \<times> string) list \<Rightarrow> string option) \<Rightarrow> string
     \<Rightarrow> (string \<times> string) list \<Rightarrow> string \<times> (string \<times> string) list" where
  "generate_llm_response api_key llm user_text hist =
     (if api_key = None \<or> api_key = Some [] then (no_key_reply, hist)
      else (let messages = drop (length hist - 20) hist @ [(''user'', user_text)]
            in case llm messages of
                 None \<Rightarrow> (llm_error_reply, hist)
               | Some r \<Rightarrow> (r, hist @ [(''user'', user_text), (''assistant'', r)])))"

fun reason_value :: "InterruptReason \<Rightarrow> string" where
  "reason_value MANUAL = ''manual''"
| "reason_value VAD_DETECTED = ''vad_detected''"
| "reason_value WAKE_WORD = ''wake_word''"
| "reason_value NEW_MESSAGE = ''new_message''"
| "reason_value SHUTDOWN = ''shutdown''"

text \<open>The server's callbacks \<open>on_speech_start\<close>, \<open>on_speech_end\<close> and
  \<open>on_speech_interrupted\<close>, run for the callback effects of the wrapper.\<close>

fun run_callbacks :: "effect list \<Rightarrow> server \<Rightarrow> server" where
  "run_callbacks [] sv = sv"
| "run_callbacks (On_speech_start # es) sv =
     run_callbacks es (broadcast [(''type'', ''tts_start'')] (sv\<lparr>is_assistant_speaking := True\<rparr>))"
| "run_callbacks (On_speech_end # es) sv =
     run_callbacks es (broadcast [(''type'', ''tts_end'')] (sv\<lparr>is_assistant_speaking := False\<rparr>))"
| "run_callbacks (On_speech_interrupted r # es) sv =
     run_callbacks es
       (broadcast [(''type'', ''tts_interrupted''), (''reason'', reason_value r)]
          (sv\<lparr>is_assistant_speaking := False\<rparr>))"
| "run_callbacks (_ # es) sv = run_callbacks es sv"

text \<open>One round of the loop of \<open>recorder_thread\<close>, for the sentence \<open>recorder.text()\<close>
  returned; \<open>ts1\<close> and \<open>ts2\<close> are the two readings of the clock, \<open>uuid\<close> the id that
  \<open>speak\<close> generates.\<close>

definition recorder_step ::
  "string option \<Rightarrow> ((string \<times> string) list \<Rightarrow> string option) \<Rightarrow> string \<Rightarrow> string
     \<Rightarrow> string \<Rightarrow> string \<Rightarrow> server \<Rightarrow> server" where
  "recorder_step api_key llm ts1 ts2 uuid full_sentence sv =
     (if full_sentence = [] then sv
      else (let sv1 = broadcast [(''type'', ''fullSentence''), (''text'', full_sentence),
                                 (''timestamp'', ts1)] sv
            in if conversation_mode sv1 then
                 (let sv2 = sv1\<lparr>tts_wrapper := clear_queue (tts_wrapper sv1)\<rparr>;
                      sv3 = broadcast [(''type'', ''assistant_processing'')] sv2
                  in case generate_llm_response api_key llm full_sentence
                            (conversation_history sv3) of
                       (response, hist) \<Rightarrow>
                         (let sv4 = sv3\<lparr>conversation_history := hist\<rparr>;
                              sv5 = broadcast [(''type'', ''assistant_response''),
                                               (''text'', response), (''timestamp'', ts2)] sv4;
                              w = snd (speak response None 1 None uuid (tts_wrapper sv5))
                          in run_callbacks
                               (drop (length (trace (tts_wrapper sv5))) (trace w))
                               (sv5\<lparr>tts_wrapper := w\<rparr>)))
               else sv1))"

section \<open>enhanced_assistant_server.py: TurnDetector\<close>

text \<open>Times are the floats of \<open>time.time()\<close>, taken as reals.\<close>

record TurnDetector =
  last_speech_time :: real
  silence_threshold :: real
  min_speech_duration :: real
  is_user_speaking :: bool
  conversation_pace :: string

definition TurnDetector_init :: "real \<Rightarrow> TurnDetector" where
  "TurnDetector_init now =
     \<lparr>last_speech_time = now, silence_threshold = 8 / 10, min_speech_duration = 3 / 10,
      is_user_speaking = False, conversation_pace = ''normal''\<rparr>"

definition on_speech_start :: "real \<Rightarrow> TurnDetector \<Rightarrow> TurnDetector" where
  "on_speech_start now td = td\<lparr>is_user_speaking := True, last_speech_time := now\<rparr>"

definition on_speech_end :: "TurnDetector \<Rightarrow> TurnDetector" where
  "on_speech_end td = td\<lparr>is_user_speaking := False\<rparr>"

definition should_respond :: "real \<Rightarrow> TurnDetector \<Rightarrow> bool" where
  "should_respond now td =
     (let silence_duration = now - last_speech_time td;
          threshold = (if conversation_pace td = ''fast'' then silence_threshold td * (7 / 10)
                       else if conversation_pace td = ''slow'' then silence_threshold td * (13 / 10)
                       else silence_threshold td)
      in \<not> is_user_speaking td \<and> silence_duration > threshold)"

definition update_pace :: "real \<Rightarrow> TurnDetector \<Rightarrow> TurnDetector" where
  "update_pace response_time td =
     (if response_time < 1 / 2 then td\<lparr>conversation_pace := ''fast''\<rparr>
      else if response_time > 3 / 2 then td\<lparr>conversation_pace := ''slow''\<rparr>
      else td\<lparr>conversation_pace := ''normal''\<rparr>)"

text \<open>The task is synthesised and every slice of it is written: \<open>_play_audio\<close> returns
  True.\<close>

definition plays_to_completion :: "task_env \<Rightarrow> AudioTask \<Rightarrow> wrapper \<Rightarrow> bool" where
  "plays_to_completion e t s =
     (case generate_audio e (task_text t) (begin_task e t s) of
        (None, s2) \<Rightarrow> False
      | (Some d, s2) \<Rightarrow> d \<noteq> [] \<and> \<not> should_stop s2 \<and> fst (play_audio e d s2) = Completed)"

text \<open>A quiet environment in which neither the synthesis stream nor the device raises.\<close>

definition healthy :: "task_env \<Rightarrow> bool" where
  "healthy e \<longleftrightarrow>
     quiet e \<and> \<not> stream_raises e \<and> \<not> open_raises e \<and>
     list_all (\<lambda>(cs, r). \<not> r) (writes e)"

text \<open>The data of the audio chunks of a stream, in order.\<close>

fun mp3_chunks :: "(call list \<times> chunk) list \<Rightarrow> bytes list" where
  "mp3_chunks [] = []"
| "mp3_chunks ((cs, Audio d) # rest) = d # mp3_chunks rest"
| "mp3_chunks ((cs, Other) # rest) = mp3_chunks rest"

section \<open>Examples\<close>

text \<open>A quiet environment that streams one audio chunk, decodes it to itself and plays
  it; the same with a synthesis stream that raises; four tasks of priorities 3, 1, 5, 1.\<close>

definition ok_env :: task_env where
  "ok_env = \<lparr>idle_calls = [], begin_calls = [], stream_items = [([], Audio [1, 2, 3, 4])],
             stream_raises = False, decode_calls = [], decode = Some,
             open_raises = False, writes = []\<rparr>"

definition failing_env :: task_env where
  "failing_env = ok_env\<lparr>stream_raises := True\<rparr>"

definition four_calls :: "call list" where
  "four_calls = [Speak ''a'' (Some ''t1'') 3 None ''u1'', Speak ''b'' (Some ''t2'') 1 None ''u2'',
                 Speak ''c'' (Some ''t3'') 5 None ''u3'', Speak ''d'' (Some ''t4'') 1 None ''u4'']"

text \<open>A task of priority 1 and the wrapper while the worker has it in flight; a language
  model that always raises; a server in assistant mode with a running loop.\<close>

definition task1 :: AudioTask where
  "task1 = \<lparr>task_text = ''a'', task_id = ''t1'', priority = 1, metadata = []\<rparr>"

definition in_flight :: wrapper where
  "in_flight = begin_task ok_env task1 (init True True True)"

definition failing_llm :: "(string \<times> string) list \<Rightarrow> string option" where
  "failing_llm messages = None"

definition server0 :: server where
  "server0 = \<lparr>conversation_mode = True, conversation_history = [],
              is_assistant_speaking = False, main_loop = True,
              tts_wrapper = init True True True, sent = []\<rparr>"

text \<open>A device whose release calls do not raise; the wrapper after it played a task, with
  its stream open; two tasks of priority 1.\<close>

definition no_raise :: release_env where
  "no_raise = \<lparr>stop_stream_raises = False, close_raises = False, terminate_raises = False\<rparr>"


definition two_calls :: "call list" where
  "two_calls = [Speak ''a'' (Some ''t1'') 1 None ''u1'', Speak ''b'' (Some ''t2'') 1 None ''u2'']"

text \<open>A call of \<open>interrupt\<close> that the worker overtakes: it passes its test during the
  only slice of one task, and sets the flag while the worker waits for the first chunk of
  the next task.\<close>

definition overtaken_first :: task_env where
  "overtaken_first = ok_env\<lparr>writes := [([Interrupt_enter MANUAL], False)]\<rparr>"

definition overtaken_second :: task_env where
  "overtaken_second = ok_env\<lparr>stream_items := [([Interrupt_finish], Audio [1, 2, 3, 4])]\<rparr>"

section \<open>Facts about the trace\<close>

lemma adds_refl: "adds P s s"
  by (simp add: adds_def)

lemma adds_trace: "adds P s s' \<Longrightarrow> \<exists>xs. trace s' = trace s @ xs \<and> list_all P xs"
  unfolding adds_def by (metis append_take_drop_id)

lemma addsI:
  "trace s' = trace s @ xs \<Longrightarrow> list_all P xs \<Longrightarrow>
   has_on_speech_start s' = has_on_speech_start s \<Longrightarrow>
   has_on_speech_end s' = has_on_speech_end s \<Longrightarrow>
   has_on_speech_interrupted s' = has_on_speech_interrupted s \<Longrightarrow> adds P s s'"
  by (simp add: adds_def)

lemma adds_trans: "adds P s s' \<Longrightarrow> adds P s' s'' \<Longrightarrow> adds P s s''"
proof -
  assume a: "adds P s s'" and b: "adds P s' s''"
  from a obtain xs where xs: "trace s' = trace s @ xs" "list_all P xs" using adds_trace by blast
  from b obtain ys where ys: "trace s'' = trace s' @ ys" "list_all P ys" using adds_trace by blast
  have "trace s'' = trace s @ (xs @ ys)" using xs ys by simp
  moreover have "list_all P (xs @ ys)" using xs ys by simp
  ultimately show ?thesis using a b by (intro addsI) (auto simp: adds_def)
qed

lemma adds_emit: "P e \<Longrightarrow> adds P s (emit e s)"
  by (simp add: adds_def emit_def)

lemma adds_interrupt: "adds minor s (interrupt r s)"
  by (simp add: adds_def interrupt_def emit_def Let_def)

lemma adds_speak: "adds minor s (snd (speak txt tid prio meta uuid s))"
  by (simp add: adds_def speak_def interrupt_def emit_def Let_def split: option.splits)

lemma adds_shutdown: "adds minor s (snd (shutdown d s))"
  by (simp add: adds_def shutdown_def release_def clear_queue_def interrupt_def emit_def Let_def)

lemma adds_interrupt_enter:
  "adds minor s (case interrupt_enter r s of
        (True, s1) \<Rightarrow> s1\<lparr>pending := pending s1 @ [r]\<rparr>
      | (False, s1) \<Rightarrow> s1)"
  by (simp add: adds_def interrupt_enter_def emit_def)

lemma adds_interrupt_finish:
  "adds minor s (case pending s of [] \<Rightarrow> s | r # rs \<Rightarrow> interrupt_finish r (s\<lparr>pending := rs\<rparr>))"
  by (simp add: adds_def interrupt_finish_def emit_def Let_def split: list.splits)

lemma adds_vad: "adds minor s (on_vad_interrupt original s)"
  by (simp add: adds_def on_vad_interrupt_def interrupt_def emit_def Let_def)

lemma adds_apply_call: "adds minor s (apply_call c s)"
  by (cases c)
    (simp_all add: adds_interrupt adds_speak adds_shutdown adds_vad adds_interrupt_enter
       adds_interrupt_finish, simp add: adds_def clear_queue_def)

lemma adds_apply_calls: "adds minor s (apply_calls cs s)"
proof (induction cs arbitrary: s)
  case Nil
  show ?case by (simp add: adds_refl)
next
  case (Cons c cs)
  show ?case using adds_trans [OF adds_apply_call Cons.IH] by simp
qed

lemma adds_collect_chunks: "adds minor s (snd (collect_chunks items acc s))"
proof (induction items arbitrary: acc s)
  case Nil
  show ?case by (simp add: adds_refl)
next
  case (Cons it items)
  obtain cs c where it: "it = (cs, c)" by (cases it)
  have step: "adds minor s (apply_calls cs s)" by (rule adds_apply_calls)
  show ?case
  proof (cases "should_stop (apply_calls cs s)")
    case True
    then show ?thesis using adds_trans [OF step adds_emit [of minor Log_generation_interrupted]]
      by (simp add: it Let_def)
  next
    case False
    then show ?thesis using adds_trans [OF step Cons.IH] by (simp add: it Let_def)
  qed
qed

lemma adds_generate_audio: "adds minor s (snd (generate_audio e txt s))"
proof -
  let ?s0 = "emit (Synthesize txt) s"
  have a0: "adds minor s ?s0" by (simp add: adds_emit)
  obtain r s1 where c: "collect_chunks (stream_items e) [] ?s0 = (r, s1)" by (cases "collect_chunks (stream_items e) [] ?s0")
  have a1: "adds minor s s1" using adds_trans [OF a0 adds_collect_chunks [of ?s0 "stream_items e" "[]"]] c by simp
  have a2: "adds minor s (emit Log_error_generating s1)" using adds_trans [OF a1 adds_emit] by simp
  have a3: "adds minor s (apply_calls (decode_calls e) s1)" using adds_trans [OF a1 adds_apply_calls] by simp
  have a4: "adds minor s (emit Log_error_generating (apply_calls (decode_calls e) s1))" using adds_trans [OF a3 adds_emit] by simp
  show ?thesis using a1 a2 a3 a4 by (simp add: generate_audio_def c Let_def split: option.splits)
qed

lemma adds_play_chunks: "adds minor s (snd (play_chunks idxs ws d s))"
proof (induction idxs arbitrary: ws s)
  case Nil
  show ?case by (simp add: adds_refl)
next
  case (Cons i idxs)
  obtain cs r where w: "(case ws of [] \<Rightarrow> ([], False) | w # _ \<Rightarrow> w) = (cs, r)"
    by (cases "(case ws of [] \<Rightarrow> ([]::call list, False) | w # _ \<Rightarrow> w)")
  let ?s1 = "emit (Stream_write (take (chunk_size * 2) (drop i d))) s"
  have b: "adds minor s (apply_calls cs ?s1)"
    using adds_trans [OF adds_emit adds_apply_calls] by simp
  have c: "adds minor s (snd (play_chunks idxs (tl ws) d (apply_calls cs ?s1)))"
    using adds_trans [OF b Cons.IH] by simp
  show ?case using c adds_apply_calls [of s cs] by (simp add: w adds_refl)
qed

lemma adds_play_audio: "adds minor s (snd (play_audio e d s))"
proof -
  have a: "adds minor s ((emit Stream_open s)\<lparr>stream := True\<rparr>)" by (simp add: adds_def emit_def)
  show ?thesis using adds_trans [OF a adds_play_chunks] adds_play_chunks [of s]
    by (simp add: play_audio_def Let_def adds_refl)
qed

lemma processed_append: "processed (xs @ ys) = processed xs @ processed ys"
  by (induction xs rule: processed.induct) simp_all

lemma processed_minor: "list_all minor xs \<Longrightarrow> processed xs = []"
  by (induction xs rule: processed.induct) simp_all

lemma count_minor:
  "list_all minor xs \<Longrightarrow> count_list xs On_speech_start = 0 \<and> count_list xs On_speech_end = 0"
  by (induction xs) auto

lemma adds_minor_processed: "adds minor s s' \<Longrightarrow> processed (trace s') = processed (trace s)"
  using adds_trace [of minor s s'] by (auto simp: processed_append processed_minor)

lemma adds_minor_count:
  "adds minor s s' \<Longrightarrow>
     count_list (trace s') On_speech_start = count_list (trace s) On_speech_start \<and>
     count_list (trace s') On_speech_end = count_list (trace s) On_speech_end"
  using adds_trace [of minor s s'] by (auto simp: count_minor)

lemma adds_has:
  "adds P s s' \<Longrightarrow> has_on_speech_start s' = has_on_speech_start s \<and>
     has_on_speech_end s' = has_on_speech_end s"
  by (simp add: adds_def)

lemma begin_task_effects:
  "processed (trace (begin_task e t s)) = processed (trace s) @ [task_id t] \<and>
   count_list (trace (begin_task e t s)) On_speech_start
     = count_list (trace s) On_speech_start + (if has_on_speech_start s then 1 else 0) \<and>
   count_list (trace (begin_task e t s)) On_speech_end = count_list (trace s) On_speech_end \<and>
   has_on_speech_start (begin_task e t s) = has_on_speech_start s \<and>
   has_on_speech_end (begin_task e t s) = has_on_speech_end s"
proof -
  let ?s1 = "s\<lparr>current_task := Some t, is_speaking := True\<rparr>"
  let ?s2 = "apply_calls (begin_calls e) ?s1"
  have a: "adds minor ?s1 ?s2" by (rule adds_apply_calls)
  have p: "processed (trace ?s2) = processed (trace s)"
    using adds_minor_processed [OF a] by simp
  have c: "count_list (trace ?s2) On_speech_start = count_list (trace s) On_speech_start"
    "count_list (trace ?s2) On_speech_end = count_list (trace s) On_speech_end"
    using adds_minor_count [OF a] by simp_all
  have h: "has_on_speech_start ?s2 = has_on_speech_start s"
    "has_on_speech_end ?s2 = has_on_speech_end s"
    using adds_has [OF a] by simp_all
  show ?thesis using p c h
    by (simp add: begin_task_def emit_def Let_def processed_append)
qed

lemma process_task_cases:
  obtains (failed) s2 where "generate_audio e (task_text t) (begin_task e t s) = (None, s2)"
      "process_task e t s = s2\<lparr>is_speaking := False, current_task := None\<rparr>"
      "\<not> plays_to_completion e t s"
  | (unplayed) d s2 where "generate_audio e (task_text t) (begin_task e t s) = (Some d, s2)"
      "d = [] \<or> should_stop s2"
      "process_task e t s = s2\<lparr>is_speaking := False, current_task := None\<rparr>"
      "\<not> plays_to_completion e t s"
  | (raised) d s2 s3 where "generate_audio e (task_text t) (begin_task e t s) = (Some d, s2)"
      "play_audio e d s2 = (Raised, s3)"
      "process_task e t s = (emit Log_error_worker s3)\<lparr>is_speaking := False\<rparr>"
      "\<not> plays_to_completion e t s"
  | (stopped) d s2 s3 where "generate_audio e (task_text t) (begin_task e t s) = (Some d, s2)"
      "play_audio e d s2 = (Stopped, s3)"
      "process_task e t s = s3\<lparr>is_speaking := False, current_task := None\<rparr>"
      "\<not> plays_to_completion e t s"
  | (completed) d s2 s3 where "generate_audio e (task_text t) (begin_task e t s) = (Some d, s2)"
      "play_audio e d s2 = (Completed, s3)"
      "process_task e t s =
         (if has_on_speech_end s3 then emit On_speech_end s3 else s3)
           \<lparr>is_speaking := False, current_task := None\<rparr>"
      "plays_to_completion e t s"
proof -
  obtain a s2 where g: "generate_audio e (task_text t) (begin_task e t s) = (a, s2)"
    by (cases "generate_audio e (task_text t) (begin_task e t s)")
  show ?thesis
  proof (cases a)
    case None
    then show ?thesis using g failed by (simp add: process_task_def plays_to_completion_def)
  next
    case (Some d)
    show ?thesis
    proof (cases "d = [] \<or> should_stop s2")
      case True
      then show ?thesis using g Some unplayed [of d s2]
        by (auto simp: process_task_def plays_to_completion_def)
    next
      case False
      obtain r s3 where p: "play_audio e d s2 = (r, s3)" by (cases "play_audio e d s2")
      show ?thesis
      proof (cases r)
        case Completed
        then show ?thesis using g Some False p completed [of d s2 s3]
          by (simp add: process_task_def plays_to_completion_def)
      next
        case Stopped
        then show ?thesis using g Some False p stopped [of d s2 s3]
          by (simp add: process_task_def plays_to_completion_def)
      next
        case Raised
        then show ?thesis using g Some False p raised [of d s2 s3]
          by (simp add: process_task_def plays_to_completion_def)
      qed
    qed
  qed
qed

lemma adds_after_begin:
  assumes "adds minor (begin_task e t s) s'"
  shows "processed (trace s') = processed (trace s) @ [task_id t]"
    and "count_list (trace s') On_speech_start =
           count_list (trace s) On_speech_start + (if has_on_speech_start s then 1 else 0)"
    and "count_list (trace s') On_speech_end = count_list (trace s) On_speech_end"
    and "has_on_speech_end s' = has_on_speech_end s"
  using adds_minor_processed [OF assms] adds_minor_count [OF assms] adds_has [OF assms]
    begin_task_effects [of e t s]
  by simp_all

lemma adds_upd: "adds P s s' \<Longrightarrow> adds P s (s'\<lparr>is_speaking := a, current_task := b\<rparr>)"
  by (simp add: adds_def)

lemma adds_upd1: "adds P s s' \<Longrightarrow> adds P s (s'\<lparr>is_speaking := a\<rparr>)"
  by (simp add: adds_def)

lemma process_task_effects:
  "processed (trace (process_task e t s)) = processed (trace s) @ [task_id t] \<and>
   count_list (trace (process_task e t s)) On_speech_start =
     count_list (trace s) On_speech_start + (if has_on_speech_start s then 1 else 0) \<and>
   count_list (trace (process_task e t s)) On_speech_end =
     count_list (trace s) On_speech_end +
       (if has_on_speech_end s \<and> plays_to_completion e t s then 1 else 0)"
proof -
  let ?b = "begin_task e t s"
  have g: "adds minor ?b (snd (generate_audio e (task_text t) ?b))" by (rule adds_generate_audio)
  show ?thesis
  proof (cases rule: process_task_cases [of e t s])
    case (failed s2)
    have "adds minor ?b (process_task e t s)" using g failed by (simp add: adds_upd)
    from adds_after_begin [OF this] failed(3) show ?thesis by simp
  next
    case (unplayed d s2)
    have "adds minor ?b (process_task e t s)" using g unplayed by (simp add: adds_upd)
    from adds_after_begin [OF this] unplayed(4) show ?thesis by simp
  next
    case (raised d s2 s3)
    have "adds minor ?b s3" using adds_trans [OF g adds_play_audio [of _ e d]] raised by simp
    then have "adds minor ?b (process_task e t s)"
      using adds_trans [OF _ adds_emit [of minor Log_error_worker s3]] raised by (simp add: adds_upd1)
    from adds_after_begin [OF this] raised(4) show ?thesis by simp
  next
    case (stopped d s2 s3)
    have "adds minor ?b s3" using adds_trans [OF g adds_play_audio [of _ e d]] stopped by simp
    then have "adds minor ?b (process_task e t s)" using stopped by (simp add: adds_upd)
    from adds_after_begin [OF this] stopped(4) show ?thesis by simp
  next
    case (completed d s2 s3)
    have a: "adds minor ?b s3" using adds_trans [OF g adds_play_audio [of _ e d]] completed by simp
    have h: "has_on_speech_end s3 = has_on_speech_end s" using adds_after_begin(4) [OF a] .
    show ?thesis
    proof (cases "has_on_speech_end s")
      case True
      then have "trace (process_task e t s) = trace s3 @ [On_speech_end]"
        using completed h by (simp add: emit_def)
      then show ?thesis using adds_after_begin [OF a] completed(4) True
        by (simp add: processed_append)
    next
      case False
      then have "trace (process_task e t s) = trace s3" using completed h by simp
      then show ?thesis using adds_after_begin [OF a] False by simp
    qed
  qed
qed

lemma process_task_idle: "\<not> is_speaking (process_task e t s)"
  by (cases rule: process_task_cases [of e t s]) (simp_all add: emit_def)

lemma emit_fields:
  "audio_queue (emit x s) = audio_queue s" "should_stop (emit x s) = should_stop s"
  "is_speaking (emit x s) = is_speaking s" "stream (emit x s) = stream s"
  "current_task (emit x s) = current_task s"
  by (simp_all add: emit_def)

lemma collect_chunks_quiet:
  "list_all (\<lambda>(cs, c). cs = []) items \<Longrightarrow> \<not> should_stop s \<Longrightarrow>
     collect_chunks items acc s = (Some (acc @ mp3_chunks items), s)"
proof (induction items arbitrary: acc)
  case Nil
  show ?case by simp
next
  case (Cons it items)
  obtain cs c where it: "it = (cs, c)" by (cases it)
  show ?case using Cons by (cases c) (simp_all add: it)
qed

lemma collect_chunks_quiet_queue:
  "list_all (\<lambda>(cs, c). cs = []) items \<Longrightarrow>
     audio_queue (snd (collect_chunks items acc s)) = audio_queue s"
proof (induction items arbitrary: acc)
  case Nil
  show ?case by simp
next
  case (Cons it items)
  obtain cs c where it: "it = (cs, c)" by (cases it)
  show ?case using Cons by (simp add: it emit_def)
qed

lemma generate_audio_quiet_queue:
  "quiet e \<Longrightarrow> audio_queue (snd (generate_audio e txt s)) = audio_queue s"
proof -
  assume q: "quiet e"
  obtain r s1 where c: "collect_chunks (stream_items e) [] (emit (Synthesize txt) s) = (r, s1)"
    by (cases "collect_chunks (stream_items e) [] (emit (Synthesize txt) s)")
  have "audio_queue s1 = audio_queue (emit (Synthesize txt) s)"
    using collect_chunks_quiet_queue [of "stream_items e" "[]" "emit (Synthesize txt) s"] q c
    by (simp add: quiet_def)
  then show ?thesis using q
    by (simp add: generate_audio_def c quiet_def emit_fields Let_def split: option.splits)
qed

lemma play_chunks_quiet_queue:
  "list_all (\<lambda>(cs, r). cs = []) ws \<Longrightarrow>
     audio_queue (snd (play_chunks idxs ws d s)) = audio_queue s"
proof (induction idxs arbitrary: ws s)
  case Nil
  show ?case by simp
next
  case (Cons i idxs)
  show ?case
  proof (cases ws)
    case Nil
    then show ?thesis using Cons.IH [of "[]"] by (simp add: emit_def)
  next
    case (Cons w ws')
    obtain cs r where w: "w = (cs, r)" by (cases w)
    show ?thesis using Cons.prems Cons.IH [of ws'] Cons w by (simp add: emit_def)
  qed
qed

lemma play_audio_quiet_queue:
  "quiet e \<Longrightarrow> audio_queue (snd (play_audio e d s)) = audio_queue s"
  by (simp add: play_audio_def Let_def quiet_def play_chunks_quiet_queue emit_def)

lemma begin_task_queue: "begin_calls e = [] \<Longrightarrow> audio_queue (begin_task e t s) = audio_queue s"
  by (simp add: begin_task_def emit_def Let_def)

lemma process_task_quiet_queue:
  assumes "quiet e"
  shows "audio_queue (process_task e t s) = audio_queue s"
proof -
  let ?b = "begin_task e t s"
  have g: "audio_queue (snd (generate_audio e (task_text t) ?b)) = audio_queue s"
    using generate_audio_quiet_queue [OF assms] assms by (simp add: begin_task_queue quiet_def)
  have p: "\<And>d s2. audio_queue (snd (play_audio e d s2)) = audio_queue s2"
    using play_audio_quiet_queue [OF assms] by simp
  show ?thesis
  proof (cases rule: process_task_cases [of e t s])
    case (failed s2)
    then show ?thesis using g by simp
  next
    case (unplayed d s2)
    then show ?thesis using g by simp
  next
    case (raised d s2 s3)
    then show ?thesis using g p [of d s2] by (simp add: emit_def)
  next
    case (stopped d s2 s3)
    then show ?thesis using g p [of d s2] by simp
  next
    case (completed d s2 s3)
    then show ?thesis using g p [of d s2] by (simp add: emit_def)
  qed
qed

lemma worker_loop_quiet:
  "list_all quiet envs \<Longrightarrow> audio_queue s = map Some ts \<Longrightarrow> length ts \<le> length envs \<Longrightarrow>
     fst (worker_loop envs s) = Waiting \<and>
     audio_queue (snd (worker_loop envs s)) = [] \<and>
     processed (trace (snd (worker_loop envs s))) = processed (trace s) @ map task_id ts"
proof (induction envs arbitrary: s ts)
  case Nil
  then show ?case by simp
next
  case (Cons e envs)
  have q: "quiet e" and qs: "list_all quiet envs" using Cons.prems(1) by simp_all
  have idle: "apply_calls (idle_calls e) s = s" using q by (simp add: quiet_def)
  show ?case
  proof (cases ts)
    case Nil
    then show ?thesis using Cons.IH [OF qs, of s "[]"] Cons.prems(2) idle by simp
  next
    case (Cons t ts')
    let ?s' = "process_task e t (s\<lparr>audio_queue := map Some ts'\<rparr>)"
    have a: "audio_queue ?s' = map Some ts'" using process_task_quiet_queue [OF q] by simp
    have b: "processed (trace ?s') = processed (trace s) @ [task_id t]"
      using process_task_effects [of e t "s\<lparr>audio_queue := map Some ts'\<rparr>"] by simp
    have c: "length ts' \<le> length envs" using Cons.prems(3) Cons by simp
    have w: "worker_loop (e # envs) s = worker_loop envs ?s'"
      using Cons.prems(2) Cons idle by simp
    have "fst (worker_loop envs ?s') = Waiting \<and>
      audio_queue (snd (worker_loop envs ?s')) = [] \<and>
      processed (trace (snd (worker_loop envs ?s'))) = processed (trace s) @ map task_id ts"
      using Cons.IH [OF qs a c] b Cons by simp
    then show ?thesis unfolding w .
  qed
qed

lemma speak_queue:
  "audio_queue (snd (speak txt tid prio meta uuid s)) =
     audio_queue s @ [Some \<lparr>task_text = txt, task_id = fst (speak txt tid prio meta uuid s),
        priority = prio, metadata = (case meta of None \<Rightarrow> [] | Some m \<Rightarrow> m)\<rparr>]"
  by (simp add: speak_def interrupt_def emit_def Let_def split: option.splits)

lemma play_chunks_healthy:
  "list_all (\<lambda>(cs, r). cs = []) ws \<Longrightarrow> list_all (\<lambda>(cs, r). \<not> r) ws \<Longrightarrow> \<not> should_stop s \<Longrightarrow>
     fst (play_chunks idxs ws d s) = Completed"
proof (induction idxs arbitrary: ws s)
  case Nil
  show ?case by simp
next
  case (Cons i idxs)
  show ?case
  proof (cases ws)
    case Nil
    then show ?thesis using Cons.IH [of "[]"] Cons.prems(3) by (simp add: emit_def)
  next
    case (Cons w ws')
    obtain cs r where w: "w = (cs, r)" by (cases w)
    show ?thesis using Cons.prems Cons.IH [of ws'] Cons w by (simp add: emit_def)
  qed
qed

lemma healthy_plays:
  assumes "healthy e" and "decode e (concat (mp3_chunks (stream_items e))) = Some pcm" and "pcm \<noteq> []"
  shows "plays_to_completion e t s"
proof -
  let ?s0 = "emit (Synthesize (task_text t)) (begin_task e t s)"
  have ns: "\<not> should_stop ?s0" by (simp add: emit_def begin_task_def Let_def)
  have c: "collect_chunks (stream_items e) [] ?s0 = (Some (mp3_chunks (stream_items e)), ?s0)"
    using collect_chunks_quiet [of "stream_items e" ?s0 "[]"] assms(1) ns
    by (simp add: healthy_def quiet_def)
  have g: "generate_audio e (task_text t) (begin_task e t s) = (Some pcm, ?s0)"
    using assms c by (simp add: generate_audio_def healthy_def quiet_def)
  have p: "fst (play_audio e pcm ?s0) = Completed"
    using assms(1) ns by (simp add: play_audio_def healthy_def quiet_def Let_def play_chunks_healthy emit_def)
  show ?thesis using g p ns assms(3) by (simp add: plays_to_completion_def)
qed

lemma play_chunks_healthy_state:
  "list_all (\<lambda>(cs, r). cs = []) ws \<Longrightarrow> list_all (\<lambda>(cs, r). \<not> r) ws \<Longrightarrow> \<not> should_stop s \<Longrightarrow>
     play_chunks idxs ws d s
       = (Completed,
          s\<lparr>trace := trace s
               @ map (\<lambda>i. Stream_write (take (chunk_size * 2) (drop i d))) idxs\<rparr>)"
proof (induction idxs arbitrary: ws s)
  case Nil
  show ?case by simp
next
  case (Cons i idxs)
  let ?s1 = "emit (Stream_write (take (chunk_size * 2) (drop i d))) s"
  have ns: "\<not> should_stop ?s1" using Cons.prems(3) by (simp add: emit_def)
  show ?case
  proof (cases ws)
    case Nil
    then show ?thesis using Cons.IH [of "[]" ?s1] Cons.prems(3) ns by (simp add: emit_def)
  next
    case (Cons w ws')
    obtain cs r where w: "w = (cs, r)" by (cases w)
    show ?thesis using Cons.prems Cons.IH [of ws' ?s1] Cons w ns by (simp add: emit_def)
  qed
qed

lemma process_task_healthy:
  assumes "healthy e" and "decode e (concat (mp3_chunks (stream_items e))) = Some pcm"
    and "pcm \<noteq> []"
  shows "process_task e t s
    = s\<lparr>current_task := None, is_speaking := False, should_stop := False, stream := True,
        trace := trace s
          @ Log_processing (task_id t) # (if has_on_speech_start s then [On_speech_start] else [])
          @ Synthesize (task_text t) # (if stream s then [] else [Stream_open])
          @ map (\<lambda>i. Stream_write (take (chunk_size * 2) (drop i pcm)))
              (range_step (length pcm) (chunk_size * 2))
          @ (if has_on_speech_end s then [On_speech_end] else [])\<rparr>"
proof -
  let ?b = "begin_task e t s"
  let ?s0 = "emit (Synthesize (task_text t)) ?b"
  have q: "begin_calls e = []" "list_all (\<lambda>(cs, c). cs = []) (stream_items e)"
    "decode_calls e = []" "list_all (\<lambda>(cs, r). cs = []) (writes e)"
    "\<not> stream_raises e" "\<not> open_raises e" "list_all (\<lambda>(cs, r). \<not> r) (writes e)"
    using assms(1) by (simp_all add: healthy_def quiet_def)
  have ns: "\<not> should_stop ?s0" by (simp add: emit_def begin_task_def Let_def)
  have c: "collect_chunks (stream_items e) [] ?s0 = (Some (mp3_chunks (stream_items e)), ?s0)"
    using collect_chunks_quiet [OF q(2) ns, of "[]"] by simp
  have g: "generate_audio e (task_text t) ?b = (Some pcm, ?s0)"
    using assms(2) c q by (simp add: generate_audio_def)
  let ?s1 = "if \<not> stream ?s0 then (emit Stream_open ?s0)\<lparr>stream := True\<rparr> else ?s0"
  have ns1: "\<not> should_stop ?s1" using ns by (simp add: emit_def)
  have p: "play_audio e pcm ?s0
    = (Completed, ?s1\<lparr>trace := trace ?s1
         @ map (\<lambda>i. Stream_write (take (chunk_size * 2) (drop i pcm)))
             (range_step (length pcm) (chunk_size * 2))\<rparr>)"
    using play_chunks_healthy_state [OF q(4) q(7) ns1] q(6) by (simp add: play_audio_def Let_def)
  let ?s3 = "?s1\<lparr>trace := trace ?s1
         @ map (\<lambda>i. Stream_write (take (chunk_size * 2) (drop i pcm)))
             (range_step (length pcm) (chunk_size * 2))\<rparr>"
  have pt: "process_task e t s
    = (if has_on_speech_end ?s3 then emit On_speech_end ?s3 else ?s3)
        \<lparr>is_speaking := False, current_task := None\<rparr>"
    using assms(3) ns by (simp add: process_task_def g p)
  show ?thesis unfolding pt using q(1)
    by (simp add: begin_task_def emit_def Let_def)
qed











section \<open>The claims\<close>

text \<open>C3. While a task is in flight, \<open>speak\<close> interrupts it exactly when the new priority
  is strictly greater than the priority of the task in flight: the stop flag is then set and
  the interruption is logged; with an equal or lower priority nothing is added to the trace
  and the stop flag is left as it was.\<close>

theorem speak_interrupts_iff_higher_priority:
  assumes "is_speaking s" and "current_task s = Some cur"
  shows "should_stop (snd (speak txt tid prio meta uuid s)) = (should_stop s \<or> priority cur < prio) \<and>
         (Log_interrupting NEW_MESSAGE
            \<in> set (drop (length (trace s)) (trace (snd (speak txt tid prio meta uuid s))))
          \<longleftrightarrow> priority cur < prio) \<and>
         (\<not> priority cur < prio \<longrightarrow>
            trace (snd (speak txt tid prio meta uuid s)) = trace s)"
  using assms by (auto simp: speak_def interrupt_def emit_def Let_def)

theorem speak_interrupts_iff_higher_priority_witness:
  "is_speaking in_flight \<and> current_task in_flight = Some task1 \<and>
   \<not> should_stop (snd (speak ''x'' None 1 None ''u'' in_flight)) \<and>
   should_stop (snd (speak ''x'' None 2 None ''u'' in_flight))"
  using speak_interrupts_iff_higher_priority [of in_flight task1 "''x''" None 1 None "''u''"]
    speak_interrupts_iff_higher_priority [of in_flight task1 "''x''" None 2 None "''u''"]
  by (simp add: in_flight_def ok_env_def task1_def begin_task_def init_def emit_def Let_def)

text \<open>C2. When the voice-activity callback installed by \<open>_setup_vad_callbacks\<close> runs
  while a task is in flight, the stop flag is set and the interruption is reported with the
  reason \<open>VAD_DETECTED\<close>, whatever the priority of the task in flight; the playback loop
  then stops before the next slice.\<close>

theorem vad_start_interrupts_any_priority:
  assumes "is_speaking s" and "current_task s = Some t"
  shows "should_stop (on_vad_interrupt original s) \<and>
         trace (on_vad_interrupt original s) =
           trace s @ [Log_interrupting VAD_DETECTED]
             @ (if has_on_speech_interrupted s then [On_speech_interrupted VAD_DETECTED] else [])
             @ (if original then [Original_on_vad_start] else []) \<and>
         play_chunks (i # idxs) ws d (on_vad_interrupt original s)
           = (Stopped, on_vad_interrupt original s)"
  using assms by (simp add: on_vad_interrupt_def interrupt_def emit_def Let_def)

theorem vad_start_interrupts_any_priority_witness:
  "is_speaking (begin_task ok_env (task1\<lparr>priority := 9223372036854775807\<rparr>) (init True True True)) \<and>
   should_stop (on_vad_interrupt True
     (begin_task ok_env (task1\<lparr>priority := 9223372036854775807\<rparr>) (init True True True)))"
  using vad_start_interrupts_any_priority
    [of "begin_task ok_env (task1\<lparr>priority := 9223372036854775807\<rparr>) (init True True True)"
        "task1\<lparr>priority := 9223372036854775807\<rparr>" True 0 "[]" "[]" "[]"]
  by (simp add: ok_env_def task1_def begin_task_def init_def emit_def Let_def)

text \<open>C5, as the code has it. \<open>speak\<close> does not look at the text: for every text, empty
  or not, it returns the task id (the one given, or the generated one when none or an empty
  one was given) and appends the task to the queue.\<close>

theorem speak_accepts_every_text:
  "fst (speak txt tid prio meta uuid s)
     = (case tid of None \<Rightarrow> uuid | Some i \<Rightarrow> if i = [] then uuid else i) \<and>
   audio_queue (snd (speak txt tid prio meta uuid s))
     = audio_queue s @ [Some \<lparr>task_text = txt, task_id = fst (speak txt tid prio meta uuid s),
          priority = prio, metadata = (case meta of None \<Rightarrow> [] | Some m \<Rightarrow> m)\<rparr>]"
  by (simp add: speak_def interrupt_def emit_def Let_def split: option.splits)

theorem speak_accepts_every_text_witness:
  "fst (speak [] None 0 None ''u'' (init True True True)) = ''u'' \<and>
   length (audio_queue (snd (speak [] None 0 None ''u'' (init True True True)))) = 1"
  using speak_accepts_every_text [of "[]" None 0 None "''u''" "init True True True"]
  by (simp add: init_def)

text \<open>C5, as stated, fails: a call with empty text is accepted, its id is returned and the
  task with the empty text is in the queue.\<close>

theorem empty_text_enqueued_counterexample:
  "speak [] (Some ''t1'') 0 None ''u'' (init True True True)
     = (''t1'', (init True True True)
          \<lparr>audio_queue := [Some \<lparr>task_text = [], task_id = ''t1'', priority = 0,
                                  metadata = []\<rparr>]\<rparr>)"
  by (simp add: speak_def init_def Let_def)




text \<open>C1, as the code has it. The queue is first-in first-out and priorities play no part
  in its order: \<open>speak\<close> appends the task at the end of the queue whatever its priority, and
  a worker that no other thread disturbs takes the queued tasks in the order of the queue.\<close>

theorem fifo_dequeue_order:
  "audio_queue (snd (speak txt tid prio meta uuid s))
     = audio_queue s @ [Some \<lparr>task_text = txt, task_id = fst (speak txt tid prio meta uuid s),
          priority = prio, metadata = (case meta of None \<Rightarrow> [] | Some m \<Rightarrow> m)\<rparr>] \<and>
   (list_all quiet envs \<and> audio_queue s = map Some ts \<and> length ts \<le> length envs \<longrightarrow>
      processed (trace (snd (worker_loop envs s))) = processed (trace s) @ map task_id ts)"
  using speak_queue [of "txt" tid prio meta uuid s] worker_loop_quiet [of envs s ts] by blast

theorem fifo_dequeue_order_witness:
  "list_all quiet [ok_env, ok_env, ok_env, ok_env] \<and>
   map (map_option priority) (audio_queue (apply_calls four_calls (init True True True)))
     = [Some 3, Some 1, Some 5, Some 1] \<and>
   processed (trace (snd (worker_loop [ok_env, ok_env, ok_env, ok_env]
       (apply_calls four_calls (init True True True)))))
     = [''t1'', ''t2'', ''t3'', ''t4'']"
proof -
  let ?s = "apply_calls four_calls (init True True True)"
  let ?ts = "[\<lparr>task_text = ''a'', task_id = ''t1'', priority = 3, metadata = []\<rparr>,
              \<lparr>task_text = ''b'', task_id = ''t2'', priority = 1, metadata = []\<rparr>,
              \<lparr>task_text = ''c'', task_id = ''t3'', priority = 5, metadata = []\<rparr>,
              \<lparr>task_text = ''d'', task_id = ''t4'', priority = 1, metadata = []\<rparr>]"
  have q: "list_all quiet [ok_env, ok_env, ok_env, ok_env]"
    by (simp add: quiet_def ok_env_def)
  have a: "audio_queue ?s = map Some ?ts"
    by (simp add: four_calls_def init_def speak_def Let_def)
  have t: "trace ?s = []"
    by (simp add: four_calls_def init_def speak_def Let_def)
  show ?thesis
    using fifo_dequeue_order [of "''x''" None 0 None "''u''" ?s "[ok_env, ok_env, ok_env, ok_env]" ?ts]
      q a t by simp
qed

text \<open>C1, as stated, fails: tasks of priorities 3, 1, 5, 1 enqueued in that order are taken
  by the worker in the order of arrival, not with the task of priority 5 first.\<close>

theorem priority_order_counterexample:
  "map (map_option priority) (audio_queue (apply_calls four_calls (init True True True)))
     = [Some 3, Some 1, Some 5, Some 1] \<and>
   processed (trace (snd (worker_loop [ok_env, ok_env, ok_env, ok_env]
       (apply_calls four_calls (init True True True)))))
     = [''t1'', ''t2'', ''t3'', ''t4''] \<and>
   processed (trace (snd (worker_loop [ok_env, ok_env, ok_env, ok_env]
       (apply_calls four_calls (init True True True)))))
     \<noteq> [''t3'', ''t1'', ''t2'', ''t4'']"
  by (simp add: ok_env_def four_calls_def init_def speak_def interrupt_def emit_def Let_def
      process_task_def begin_task_def generate_audio_def play_audio_def range_step_def
      chunk_size_def)

text \<open>C7, as the code has it. \<open>shutdown\<close> does not close the queue: in every state
  reached after a \<open>shutdown\<close>, through whatever calls of other threads and steps of the
  worker, \<open>speak\<close> still returns an id and appends its task to the queue; directly after
  the \<open>shutdown\<close> the task stands behind the shutdown signal.\<close>

theorem enqueue_after_shutdown:
  "fst (speak txt tid prio meta uuid
          (snd (worker_loop envs (apply_calls cs (snd (shutdown d s))))))
     = (case tid of None \<Rightarrow> uuid | Some i \<Rightarrow> if i = [] then uuid else i) \<and>
   audio_queue (snd (speak txt tid prio meta uuid
          (snd (worker_loop envs (apply_calls cs (snd (shutdown d s)))))))
     = audio_queue (snd (worker_loop envs (apply_calls cs (snd (shutdown d s)))))
       @ [Some \<lparr>task_text = txt,
            task_id = (case tid of None \<Rightarrow> uuid | Some i \<Rightarrow> if i = [] then uuid else i),
            priority = prio, metadata = (case meta of None \<Rightarrow> [] | Some m \<Rightarrow> m)\<rparr>] \<and>
   audio_queue (snd (speak txt tid prio meta uuid (snd (shutdown d s))))
     = [None, Some \<lparr>task_text = txt,
            task_id = (case tid of None \<Rightarrow> uuid | Some i \<Rightarrow> if i = [] then uuid else i),
            priority = prio, metadata = (case meta of None \<Rightarrow> [] | Some m \<Rightarrow> m)\<rparr>]"
proof -
  have i: "\<And>s'. fst (speak txt tid prio meta uuid s')
     = (case tid of None \<Rightarrow> uuid | Some i \<Rightarrow> if i = [] then uuid else i)"
    by (simp add: speak_def Let_def)
  have a: "audio_queue (snd (shutdown d s)) = [None]"
    by (simp add: shutdown_def release_def interrupt_def emit_def clear_queue_def Let_def)
  show ?thesis
    using speak_queue [of "txt" tid prio meta uuid
        "snd (worker_loop envs (apply_calls cs (snd (shutdown d s))))"]
      speak_queue [of "txt" tid prio meta uuid "snd (shutdown d s)"] a
    by (simp add: i)
qed

theorem enqueue_after_shutdown_witness:
  "fst (speak ''late'' (Some ''t9'') 7 None ''u'' (snd (shutdown no_raise in_flight))) = ''t9'' \<and>
   map (map_option task_id)
     (audio_queue (snd (speak ''late'' (Some ''t9'') 7 None ''u''
        (snd (shutdown no_raise in_flight))))) = [None, Some ''t9''] \<and>
   map (map_option task_id)
     (audio_queue (snd (speak ''late'' (Some ''t9'') 7 None ''u''
        (snd (worker_loop [] (apply_calls [Clear_queue] (snd (shutdown no_raise in_flight))))))))
     = [Some ''t9'']"
  using enqueue_after_shutdown
    [of "''late''" "Some ''t9''" 7 None "''u''" "[]" "[Clear_queue]" no_raise in_flight]
  by (simp add: clear_queue_def speak_def Let_def)

text \<open>C7, as stated, fails: after \<open>shutdown\<close>, \<open>speak\<close> adds its task to the queue.\<close>

theorem enqueue_after_shutdown_counterexample:
  "fst (shutdown no_raise (init True True True)) = Returned \<and>
   speak ''late'' (Some ''t9'') 0 None ''u'' (snd (shutdown no_raise (init True True True)))
     = (''t9'', (snd (shutdown no_raise (init True True True)))
          \<lparr>audio_queue := [None, Some \<lparr>task_text = ''late'', task_id = ''t9'', priority = 0,
                                        metadata = []\<rparr>]\<rparr>)"
  by (simp add: speak_def shutdown_def release_def interrupt_def clear_queue_def emit_def
      init_def no_raise_def Let_def)

text \<open>C10, as the code has it. The worker clears the stop flag right after it takes a
  task. A flag left set by a call of \<open>interrupt\<close> that returned before the task was taken
  therefore does not cancel that task: from any state, with the flag set or not, a task
  that no other thread disturbs and whose synthesis and device work is synthesised,
  written slice by slice to its end and reported as ended, and the loop goes on from the
  idle state with the flag clear. A call of \<open>interrupt\<close> while nothing is in flight
  changes nothing.\<close>

theorem stale_stop_flag_is_cleared:
  "(\<not> is_speaking s \<longrightarrow> interrupt r s = s) \<and>
   (healthy e \<and> decode e (concat (mp3_chunks (stream_items e))) = Some pcm \<and> pcm \<noteq> [] \<longrightarrow>
      process_task e t s
        = s\<lparr>current_task := None, is_speaking := False, should_stop := False, stream := True,
            trace := trace s
              @ Log_processing (task_id t)
                  # (if has_on_speech_start s then [On_speech_start] else [])
              @ Synthesize (task_text t) # (if stream s then [] else [Stream_open])
              @ map (\<lambda>i. Stream_write (take (chunk_size * 2) (drop i pcm)))
                  (range_step (length pcm) (chunk_size * 2))
              @ (if has_on_speech_end s then [On_speech_end] else [])\<rparr> \<and>
      (audio_queue s = Some t # q \<longrightarrow>
         worker_loop (e # es) s = worker_loop es (process_task e t (s\<lparr>audio_queue := q\<rparr>))))"
proof -
  have "healthy e \<Longrightarrow> audio_queue s = Some t # q \<Longrightarrow>
      worker_loop (e # es) s = worker_loop es (process_task e t (s\<lparr>audio_queue := q\<rparr>))"
    by (simp add: healthy_def quiet_def)
  then show ?thesis
    using process_task_healthy [of e pcm t s] by (simp add: interrupt_def)
qed

theorem stale_stop_flag_is_cleared_witness:
  "should_stop (interrupt MANUAL in_flight) \<and>
   healthy ok_env \<and>
   decode ok_env (concat (mp3_chunks (stream_items ok_env))) = Some [1, 2, 3, 4] \<and>
   trace (process_task ok_env (task1\<lparr>task_id := ''t2''\<rparr>) (interrupt MANUAL in_flight))
     = trace (interrupt MANUAL in_flight)
       @ [Log_processing ''t2'', On_speech_start, Synthesize ''a'', Stream_open,
          Stream_write [1, 2, 3, 4], On_speech_end] \<and>
   \<not> should_stop (process_task ok_env (task1\<lparr>task_id := ''t2''\<rparr>) (interrupt MANUAL in_flight)) \<and>
   interrupt MANUAL (init True True True) = init True True True"
proof -
  have h: "healthy ok_env" "decode ok_env (concat (mp3_chunks (stream_items ok_env))) = Some [1, 2, 3, 4]"
    by (simp_all add: healthy_def quiet_def ok_env_def)
  have i: "should_stop (interrupt MANUAL in_flight)" "has_on_speech_start (interrupt MANUAL in_flight)"
    "has_on_speech_end (interrupt MANUAL in_flight)" "\<not> stream (interrupt MANUAL in_flight)"
    by (simp_all add: in_flight_def ok_env_def interrupt_def begin_task_def init_def emit_def Let_def)
  have n: "\<not> is_speaking (init True True True)" by (simp add: init_def)
  show ?thesis
    using stale_stop_flag_is_cleared
        [of "interrupt MANUAL in_flight" MANUAL ok_env "[1, 2, 3, 4]" "task1\<lparr>task_id := ''t2''\<rparr>"]
      stale_stop_flag_is_cleared [of "init True True True" MANUAL] h i n
    by (simp add: task1_def range_step_def chunk_size_def)
qed

text \<open>C10, as stated, fails for a call of \<open>interrupt\<close> that the worker overtakes: the call
  passes its test of \<open>is_speaking\<close> while the first task is written, the first task is
  played to its end, the worker takes the second task and clears the flag, and then the
  call sets the flag: the second task is cancelled during synthesis and never played.\<close>

theorem overtaken_interrupt_counterexample:
  "trace (snd (worker_loop [overtaken_first, overtaken_second]
       (apply_calls two_calls (init True True True))))
     = [Log_processing ''t1'', On_speech_start, Synthesize ''a'', Stream_open,
        Stream_write [1, 2, 3, 4], Log_interrupting MANUAL, On_speech_end,
        Log_processing ''t2'', On_speech_start, Synthesize ''b'',
        On_speech_interrupted MANUAL, Log_generation_interrupted]"
  by (simp add: overtaken_first_def overtaken_second_def ok_env_def two_calls_def init_def
      speak_def interrupt_def interrupt_enter_def interrupt_finish_def emit_def Let_def
      process_task_def begin_task_def generate_audio_def play_audio_def range_step_def
      chunk_size_def)

text \<open>C9. \<open>on_speech_end\<close> clears \<open>is_user_speaking\<close> and leaves \<open>last_speech_time\<close>
  as it was, the time of the start of the speech: for speech that starts at 100 and ends at
  105, \<open>should_respond\<close> at 105 measures 5 seconds of silence and answers True, although
  no silence has passed since the end of the speech.\<close>

theorem on_speech_end_keeps_start_time:
  "last_speech_time (on_speech_end td) = last_speech_time td \<and>
   \<not> is_user_speaking (on_speech_end td) \<and>
   last_speech_time (on_speech_end (on_speech_start 100 (TurnDetector_init 0))) = 100 \<and>
   should_respond 105 (on_speech_end (on_speech_start 100 (TurnDetector_init 0)))"
  by (simp add: on_speech_end_def on_speech_start_def TurnDetector_init_def should_respond_def
      Let_def)

text \<open>C4, as the code has it. The worker invokes \<open>on_speech_start\<close> for every task it
  takes, before synthesis is attempted, so also for a task whose synthesis fails;
  \<open>on_speech_end\<close> is invoked only when the playback ran to completion. When synthesis
  gives no audio, nothing more happens for the task: the worker is idle again with no
  current task, and the loop goes on with the rest of the queue.\<close>

theorem worker_notifications:
  "count_list (trace (process_task e t s)) On_speech_start
     = count_list (trace s) On_speech_start + (if has_on_speech_start s then 1 else 0) \<and>
   count_list (trace (process_task e t s)) On_speech_end
     = count_list (trace s) On_speech_end
         + (if has_on_speech_end s \<and> plays_to_completion e t s then 1 else 0) \<and>
   \<not> is_speaking (process_task e t s) \<and>
   (fst (generate_audio e (task_text t) (begin_task e t s)) = None \<longrightarrow>
      process_task e t s
        = (snd (generate_audio e (task_text t) (begin_task e t s)))
            \<lparr>is_speaking := False, current_task := None\<rparr>) \<and>
   (audio_queue (apply_calls (idle_calls e) s) = Some t # q \<longrightarrow>
      worker_loop (e # es) s
        = worker_loop es
            (process_task e t ((apply_calls (idle_calls e) s)\<lparr>audio_queue := q\<rparr>)))"
proof -
  have "fst (generate_audio e (task_text t) (begin_task e t s)) = None \<Longrightarrow>
      process_task e t s
        = (snd (generate_audio e (task_text t) (begin_task e t s)))
            \<lparr>is_speaking := False, current_task := None\<rparr>"
    by (cases "generate_audio e (task_text t) (begin_task e t s)") (simp add: process_task_def)
  then show ?thesis
    using process_task_effects [of e t s] process_task_idle [of e t s] by simp
qed

theorem worker_notifications_witness:
  "fst (generate_audio failing_env (task_text task1) (begin_task failing_env task1 (init True True True)))
     = None \<and>
   count_list (trace (process_task failing_env task1 (init True True True))) On_speech_start = 1 \<and>
   count_list (trace (process_task failing_env task1 (init True True True))) On_speech_end = 0 \<and>
   current_task (process_task failing_env task1 (init True True True)) = None \<and>
   processed (trace (snd (worker_loop [failing_env, ok_env]
       (apply_calls four_calls (init True True True))))) = [''t1'', ''t2'']"
proof -
  let ?s = "init True True True"
  have g: "generate_audio failing_env (task_text task1) (begin_task failing_env task1 ?s)
     = (None, (begin_task failing_env task1 ?s)
          \<lparr>trace := [Log_processing ''t1'', On_speech_start, Synthesize ''a'',
                     Log_error_generating]\<rparr>)"
    by (simp add: generate_audio_def failing_env_def ok_env_def task1_def begin_task_def
        init_def emit_def Let_def)
  have np: "\<not> plays_to_completion failing_env task1 ?s"
    by (simp add: plays_to_completion_def g)
  have h: "has_on_speech_start ?s" "has_on_speech_end ?s" "trace ?s = []"
    by (simp_all add: init_def)
  have w: "processed (trace (snd (worker_loop [failing_env, ok_env]
       (apply_calls four_calls (init True True True))))) = [''t1'', ''t2'']"
    by (simp add: ok_env_def failing_env_def four_calls_def init_def speak_def interrupt_def
      emit_def Let_def process_task_def begin_task_def generate_audio_def play_audio_def
      range_step_def chunk_size_def)
  show ?thesis
    using worker_notifications [of failing_env task1 ?s] g np h w by simp
qed

text \<open>C4, as stated, fails: for a task whose synthesis stream raises, the worker has
  invoked \<open>on_speech_start\<close> before the failure.\<close>

theorem start_before_synthesis_counterexample:
  "fst (generate_audio failing_env (task_text task1) (begin_task failing_env task1 (init True True True)))
     = None \<and>
   trace (process_task failing_env task1 (init True True True))
     = [Log_processing ''t1'', On_speech_start, Synthesize ''a'', Log_error_generating]"
  by (simp add: process_task_def generate_audio_def failing_env_def ok_env_def task1_def
      begin_task_def init_def emit_def Let_def)

text \<open>C8, as the code has it. When the language model raises, \<open>generate_llm_response\<close>
  returns its fixed apology; the server sends it to the clients as an
  \<open>assistant_response\<close> message and gives it to \<open>speak\<close> with priority 1, as it does
  with any reply. The queue, cleared before, then holds that one task; the history is
  unchanged; the messages sent are the sentence, the processing mark and the reply, then
  the notice of an interruption when a task of lower priority was in flight.\<close>

theorem generator_failure_is_spoken:
  assumes "full_sentence \<noteq> []" and "conversation_mode sv" and "main_loop sv"
    and "api_key = Some k" and "k \<noteq> []"
    and "llm (drop (length (conversation_history sv) - 20) (conversation_history sv)
               @ [(''user'', full_sentence)]) = None"
  shows "audio_queue (tts_wrapper (recorder_step api_key llm ts1 ts2 uuid full_sentence sv))
           = [Some \<lparr>task_text = llm_error_reply, task_id = uuid, priority = 1, metadata = []\<rparr>] \<and>
         conversation_history (recorder_step api_key llm ts1 ts2 uuid full_sentence sv)
           = conversation_history sv \<and>
         sent (recorder_step api_key llm ts1 ts2 uuid full_sentence sv)
           = sent sv @
             [[(''type'', ''fullSentence''), (''text'', full_sentence), (''timestamp'', ts1)],
              [(''type'', ''assistant_processing'')],
              [(''type'', ''assistant_response''), (''text'', llm_error_reply),
               (''timestamp'', ts2)]]
             @ (if is_speaking (tts_wrapper sv) \<and> has_on_speech_interrupted (tts_wrapper sv) \<and>
                   (case current_task (tts_wrapper sv) of None \<Rightarrow> False
                    | Some cur \<Rightarrow> priority cur < 1)
                then [[(''type'', ''tts_interrupted''), (''reason'', ''new_message'')]] else [])"
  using assms
  by (simp add: recorder_step_def generate_llm_response_def broadcast_def clear_queue_def
      speak_def interrupt_def emit_def Let_def split: option.splits)

theorem generator_failure_is_spoken_witness:
  "conversation_mode server0 \<and> main_loop server0 \<and>
   failing_llm (drop (length (conversation_history server0) - 20) (conversation_history server0)
               @ [(''user'', ''hello'')]) = None \<and>
   map (map_option priority)
     (audio_queue (tts_wrapper
        (recorder_step (Some ''key'') failing_llm ''12:00:00'' ''12:00:01'' ''u1'' ''hello''
           server0))) = [Some 1] \<and>
   length (sent (recorder_step (Some ''key'') failing_llm ''12:00:00'' ''12:00:01'' ''u1''
      ''hello'' server0)) = 3"
  using generator_failure_is_spoken
    [of "''hello''" server0 "Some ''key''" "''key''" failing_llm "''12:00:00''" "''12:00:01''"
        "''u1''"]
  by (simp add: server0_def failing_llm_def init_def)

text \<open>C8, as stated, fails: with a language model that raises, no message of type
  \<open>error\<close> is sent and one task, the apology, is put in the playback queue.\<close>

theorem generator_failure_counterexample:
  "sent (recorder_step (Some ''key'') failing_llm ''12:00:00'' ''12:00:01'' ''u1'' ''hello''
      server0)
     = [[(''type'', ''fullSentence''), (''text'', ''hello''), (''timestamp'', ''12:00:00'')],
        [(''type'', ''assistant_processing'')],
        [(''type'', ''assistant_response''), (''text'', llm_error_reply),
         (''timestamp'', ''12:00:01'')]] \<and>
   audio_queue (tts_wrapper
      (recorder_step (Some ''key'') failing_llm ''12:00:00'' ''12:00:01'' ''u1'' ''hello''
         server0))
     = [Some \<lparr>task_text = llm_error_reply, task_id = ''u1'', priority = 1, metadata = []\<rparr>]"
  by (simp add: recorder_step_def generate_llm_response_def broadcast_def clear_queue_def
      speak_def interrupt_def emit_def Let_def server0_def failing_llm_def init_def)

end
